theory Spec2Isabelle
  imports Complex_Main
begin

section \<open>The task orchestrator of make-it-heavy-js\<close>

text \<open>
  A shallow embedding of the class \<^verbatim>\<open>TaskOrchestrator\<close> of \<^verbatim>\<open>orchestrator.ts\<close>. The
  repository holds a second copy of the class, \<^verbatim>\<open>src/orchestrator.ts\<close> (in the sources at
  hand, lines 327 to 473 of \<^verbatim>\<open>make_it_heavy.ts\<close>): its constructor takes the configuration
  as an object, its \<^verbatim>\<open>aggregate_results\<close> has no strategy test, and its
  \<^verbatim>\<open>_aggregate_consensus\<close> has other line breaks; the rest is the same code. The two
  functions that differ are embedded twice, the second time with the suffix \<open>_src\<close>.

  What the class does not own is an input of the model:
  \<^item> a worker (\<^verbatim>\<open>OpenRouterAgent.run\<close>) is an external service. Every call of \<^verbatim>\<open>run\<close> is
    recorded, with its argument, in the \<open>trace\<close> of the state; what the call
    eventually does (never settles, resolves with a text, rejects with an \<^verbatim>\<open>Error\<close> whose
    \<^verbatim>\<open>message\<close> is a text) is given from outside, as a \<open>promise\<close> value or as an event;
  \<^item> the order in which worker calls settle and timers fire is given from outside, as a
    list of events: each event is one callback of the event loop, run to completion;
  \<^item> \<^verbatim>\<open>JSON.parse\<close> is a parameter (\<open>None\<close> when it throws).
  Numbers are integers (\<^verbatim>\<open>parallel_agents\<close>, \<^verbatim>\<open>task_timeout\<close>, slot ids) or rationals
  (\<^verbatim>\<open>execution_time\<close>, in seconds); strings are lists of 8-bit characters. One run is
  modelled at a time: callbacks left over from an earlier run of the same object are not.
\<close>

subsection \<open>Strings\<close>

text \<open>
  \<^verbatim>\<open>String(n)\<close> and \<^verbatim>\<open>${n}\<close> for an integer \<open>n\<close>: its decimal digits. This is what
  JavaScript prints for the integers it holds exactly (up to \<open>2^53\<close> in absolute value);
  beyond them it rounds, and from \<open>10^21\<close> on it prints an exponent, which is not modelled.
\<close>

definition digit_char :: "nat \<Rightarrow> char" where
  "digit_char d = ''0123456789'' ! d"

function string_of_nat :: "nat \<Rightarrow> string" where
  "string_of_nat n =
     (if n < 10 then [digit_char n] else string_of_nat (n div 10) @ [digit_char (n mod 10)])"
  by pat_completeness auto
termination
  by (relation "measure id") auto

declare string_of_nat.simps [simp del]

definition string_of_int :: "int \<Rightarrow> string" where
  "string_of_int i =
     (if i < 0 then CHR ''-'' # string_of_nat (nat (- i)) else string_of_nat (nat i))"

text \<open>
  \<^verbatim>\<open>String.prototype.replace(pattern, replacement)\<close> with a string pattern: the first
  occurrence is replaced, and in the replacement \<^verbatim>\<open>$$\<close>, \<^verbatim>\<open>$&\<close>, \<^verbatim>\<open>$`\<close> and \<^verbatim>\<open>$'\<close>
  stand for a dollar sign, the match, the text before it and the text after it.
\<close>

fun GetSubstitution :: "string \<Rightarrow> string \<Rightarrow> string \<Rightarrow> string \<Rightarrow> string" where
  "GetSubstitution matched pre post [] = []"
| "GetSubstitution matched pre post [c] = [c]"
| "GetSubstitution matched pre post (c # d # r) =
     (if c = CHR ''$'' \<and> d = CHR ''$'' then CHR ''$'' # GetSubstitution matched pre post r
      else if c = CHR ''$'' \<and> d = CHR ''&'' then matched @ GetSubstitution matched pre post r
      else if c = CHR ''$'' \<and> d = CHR 0x60 then pre @ GetSubstitution matched pre post r
      else if c = CHR ''$'' \<and> d = CHR 0x27 then post @ GetSubstitution matched pre post r
      else c # GetSubstitution matched pre post (d # r))"

fun replace_from :: "string \<Rightarrow> string \<Rightarrow> string \<Rightarrow> string \<Rightarrow> string" where
  "replace_from pat rep pre [] =
     (if pat = [] then pre @ GetSubstitution pat pre [] rep else pre)"
| "replace_from pat rep pre (c # s) =
     (if take (length pat) (c # s) = pat
      then pre @ GetSubstitution pat pre (drop (length pat) (c # s)) rep
             @ drop (length pat) (c # s)
      else replace_from pat rep (pre @ [c]) s)"

definition js_replace :: "string \<Rightarrow> string \<Rightarrow> string \<Rightarrow> string" where
  "js_replace pat rep s = replace_from pat rep [] s"

text \<open>
  \<^verbatim>\<open>String.prototype.trim\<close>, on the ASCII white space. The white space beyond ASCII that
  \<^verbatim>\<open>trim\<close> strips as well (U+00A0, U+FEFF, the Unicode spaces) is not modelled; the
  trimmed text only goes to \<^verbatim>\<open>JSON.parse\<close>, which is a parameter.
\<close>

definition is_space :: "char \<Rightarrow> bool" where
  "is_space c = List.member [CHR 0x09, CHR 0x0A, CHR 0x0B, CHR 0x0C, CHR 0x0D, CHR 0x20] c"

definition trim :: "string \<Rightarrow> string" where
  "trim s = rev (dropWhile is_space (rev (dropWhile is_space s)))"

text \<open>\<^verbatim>\<open>Array.prototype.join\<close>.\<close>

fun join :: "string \<Rightarrow> string list \<Rightarrow> string" where
  "join sep [] = []"
| "join sep [x] = x"
| "join sep (x # y # ys) = x @ sep @ join sep (y # ys)"

text \<open>
  \<^verbatim>\<open>xs.slice(0, e)\<close> for an integer \<open>e\<close>: a negative end counts from the end of the array.
\<close>

definition slice0 :: "int \<Rightarrow> 'a list \<Rightarrow> 'a list" where
  "slice0 e xs = (if e < 0 then take (nat (int (length xs) + e)) xs else take (nat e) xs)"

subsection \<open>Data\<close>

text \<open>What \<^verbatim>\<open>JSON.parse\<close> returns.\<close>

datatype json =
    JNull
  | JBool bool
  | JNumber rat
  | JString string
  | JArray "json list"
  | JObject "(string \<times> json) list"

text \<open>The eventual state of a promise; a rejection carries the error's \<^verbatim>\<open>message\<close>.\<close>

datatype 'a promise = Pending | Fulfilled 'a | Rejected string

datatype result_status = Success | Error | Timeout

record AgentResult =
  agent_id :: int
  status :: result_status
  response :: string
  execution_time :: rat

text \<open>
  A \<^verbatim>\<open>Map<number, string>\<close>: its entries in insertion order. \<^verbatim>\<open>set\<close> on a key that is
  present keeps the entry's place.
\<close>

type_synonym jsmap = "(int \<times> string) list"

fun map_set :: "int \<Rightarrow> string \<Rightarrow> jsmap \<Rightarrow> jsmap" where
  "map_set k v [] = [(k, v)]"
| "map_set k v ((k', v') # m) =
     (if k' = k then (k, v) # m else (k', v') # map_set k v m)"

definition map_get :: "int \<Rightarrow> jsmap \<Rightarrow> string option" where
  "map_get k m = map_of m k"

definition map_delete :: "int \<Rightarrow> jsmap \<Rightarrow> jsmap" where
  "map_delete k m = filter (\<lambda>kv. fst kv \<noteq> k) m"

text \<open>
  The two races of one slot, as \<^verbatim>\<open>orchestrate\<close> builds them: whether the worker call
  and the timer are still outstanding, and the value \<^verbatim>\<open>Promise.race\<close> has settled with.
\<close>

record slot =
  worker_settled :: bool
  timer_fired :: bool
  race_value :: "AgentResult option"

text \<open>
  What the class does that can be seen from outside, in the order in which it does it:
  an \<^verbatim>\<open>agent_progress.set(k, v)\<close>, and a call of a worker's \<^verbatim>\<open>run\<close> with its argument.
\<close>

datatype effect = ProgressSet int string | WorkerCall json

fun effect_calls :: "effect list \<Rightarrow> json list" where
  "effect_calls [] = []"
| "effect_calls (WorkerCall p # es) = p # effect_calls es"
| "effect_calls (ProgressSet k v # es) = effect_calls es"

fun effect_writes :: "effect list \<Rightarrow> (int \<times> string) list" where
  "effect_writes [] = []"
| "effect_writes (ProgressSet k v # es) = (k, v) # effect_writes es"
| "effect_writes (WorkerCall p # es) = effect_writes es"

text \<open>
  The state: the \<^verbatim>\<open>Map\<close> objects by address (\<open>store\<close>), the effects so far, oldest first
  (\<open>trace\<close>), and the slots of the run in flight.
\<close>

type_synonym addr = nat

record state =
  store :: "jsmap list"
  trace :: "effect list"
  slots :: "slot list"

text \<open>
  The arguments of the worker calls made so far, and every \<^verbatim>\<open>agent_progress.set\<close> made so
  far.
\<close>

definition calls :: "state \<Rightarrow> json list" where
  "calls s = effect_calls (trace s)"

definition progress_writes :: "state \<Rightarrow> (int \<times> string) list" where
  "progress_writes s = effect_writes (trace s)"

text \<open>The orchestrator object: its configuration and the addresses of its two maps.\<close>

record TaskOrchestrator =
  question_generation_prompt :: string
  synthesis_prompt :: string
  num_agents :: int
  task_timeout :: int
  aggregation_strategy :: string
  agent_progress :: addr
  agent_results :: addr

subsection \<open>\<^verbatim>\<open>decompose_task\<close>\<close>

definition fallbackQuestions :: "string \<Rightarrow> json list" where
  "fallbackQuestions userInput =
     [JString (''Research comprehensive information about: '' @ userInput),
      JString (''Analyze and provide insights about: '' @ userInput),
      JString (''Find alternative perspectives on: '' @ userInput),
      JString (''Verify and cross-check facts about: '' @ userInput)]"

text \<open>
  \<open>reply\<close> is what the one call of \<^verbatim>\<open>questionAgent.run\<close> does. Everything thrown in the
  \<^verbatim>\<open>try\<close> block (the rejection, the \<^verbatim>\<open>SyntaxError\<close> of \<^verbatim>\<open>JSON.parse\<close>, the \<^verbatim>\<open>Error\<close> of the
  length check) reaches the one \<^verbatim>\<open>catch\<close>.
\<close>

definition decompose_task ::
  "(string \<Rightarrow> json option) \<Rightarrow> TaskOrchestrator \<Rightarrow> string promise \<Rightarrow> string \<Rightarrow> int \<Rightarrow> state
     \<Rightarrow> json list promise \<times> state"
where
  "decompose_task JSON_parse this reply userInput numAgents s =
     (let generationPrompt =
            js_replace ''{num_agents}'' (string_of_int numAgents)
              (js_replace ''{user_input}'' userInput (question_generation_prompt this));
          s1 = s\<lparr>trace := trace s @ [WorkerCall (JString generationPrompt)]\<rparr>;
          caught = Fulfilled (slice0 numAgents (fallbackQuestions userInput))
      in case reply of
           Pending \<Rightarrow> (Pending, s1)
         | Rejected msg \<Rightarrow> (caught, s1)
         | Fulfilled resp \<Rightarrow>
             (case JSON_parse (trim resp) of
                None \<Rightarrow> (caught, s1)
              | Some (JArray questions) \<Rightarrow>
                  if int (length questions) \<noteq> numAgents then (caught, s1)
                  else (Fulfilled questions, s1)
              | Some _ \<Rightarrow> (caught, s1)))"

subsection \<open>The progress map\<close>

definition progress_set :: "TaskOrchestrator \<Rightarrow> int \<Rightarrow> string \<Rightarrow> state \<Rightarrow> state" where
  "progress_set this k v s =
     s\<lparr>store := (store s)[agent_progress this := map_set k v (store s ! agent_progress this)],
       trace := trace s @ [ProgressSet k v]\<rparr>"

definition results_set :: "TaskOrchestrator \<Rightarrow> int \<Rightarrow> string \<Rightarrow> state \<Rightarrow> state" where
  "results_set this k v s =
     s\<lparr>store := (store s)[agent_results this := map_set k v (store s ! agent_results this)]\<rparr>"

definition update_agent_progress ::
  "TaskOrchestrator \<Rightarrow> int \<Rightarrow> string \<Rightarrow> string option \<Rightarrow> state \<Rightarrow> state"
where
  "update_agent_progress this agentId st result s =
     (let s1 = progress_set this agentId st s
      in case result of None \<Rightarrow> s1 | Some r \<Rightarrow> results_set this agentId r s1)"

text \<open>
  \<^verbatim>\<open>get_progress_status\<close>: \<^verbatim>\<open>new Map(this.agent_progress)\<close> is a new object, at a new
  address, with the entries of the live map; the address is what the caller gets.
\<close>

definition get_progress_status :: "TaskOrchestrator \<Rightarrow> state \<Rightarrow> addr \<times> state" where
  "get_progress_status this s =
     (length (store s), s\<lparr>store := store s @ [store s ! agent_progress this]\<rparr>)"

text \<open>What a caller can do to a \<^verbatim>\<open>Map\<close> it holds: \<^verbatim>\<open>set\<close>, \<^verbatim>\<open>delete\<close>, \<^verbatim>\<open>clear\<close>.\<close>

datatype map_op = MapSet int string | MapDelete int | MapClear

fun map_apply :: "map_op \<Rightarrow> jsmap \<Rightarrow> jsmap" where
  "map_apply (MapSet k v) m = map_set k v m"
| "map_apply (MapDelete k) m = map_delete k m"
| "map_apply MapClear m = []"

definition mutate :: "addr \<Rightarrow> map_op \<Rightarrow> state \<Rightarrow> state" where
  "mutate a op s = s\<lparr>store := (store s)[a := map_apply op (store s ! a)]\<rparr>"

text \<open>
  The constructor's two \<^verbatim>\<open>new Map()\<close> (the field initialisers); the configuration is
  taken as read.
\<close>

definition new_TaskOrchestrator ::
  "string \<Rightarrow> string \<Rightarrow> int \<Rightarrow> int \<Rightarrow> string \<Rightarrow> state \<Rightarrow> TaskOrchestrator \<times> state"
where
  "new_TaskOrchestrator qprompt sprompt n t strategy s =
     (\<lparr>question_generation_prompt = qprompt, synthesis_prompt = sprompt, num_agents = n,
       task_timeout = t, aggregation_strategy = strategy,
       agent_progress = length (store s), agent_results = Suc (length (store s))\<rparr>,
      s\<lparr>store := store s @ [[], []]\<rparr>)"

text \<open>The object's two maps are two different objects of the store.\<close>

definition wf :: "TaskOrchestrator \<Rightarrow> state \<Rightarrow> bool" where
  "wf this s =
     (agent_progress this < length (store s) \<and> agent_results this < length (store s)
      \<and> agent_progress this \<noteq> agent_results this)"

definition progress :: "TaskOrchestrator \<Rightarrow> state \<Rightarrow> jsmap" where
  "progress this s = store s ! agent_progress this"

text \<open>The statuses the sentinel slot \<open>-1\<close> has been given so far, oldest first.\<close>

definition sentinel_writes :: "state \<Rightarrow> string list" where
  "sentinel_writes s = map snd (filter (\<lambda>kv. fst kv = - 1) (progress_writes s))"

text \<open>None of these effects is a write to the sentinel slot.\<close>

fun no_sentinel_write :: "effect list \<Rightarrow> bool" where
  "no_sentinel_write [] = True"
| "no_sentinel_write (ProgressSet k v # es) = (k \<noteq> - 1 \<and> no_sentinel_write es)"
| "no_sentinel_write (WorkerCall p # es) = no_sentinel_write es"

subsection \<open>\<^verbatim>\<open>run_agent_parallel\<close> and the timer, callback by callback\<close>

text \<open>
  \<^verbatim>\<open>run_agent_parallel\<close> up to its \<^verbatim>\<open>await\<close>: the slot is marked and the worker called.
\<close>

definition run_agent_parallel_call :: "TaskOrchestrator \<Rightarrow> nat \<Rightarrow> json \<Rightarrow> state \<Rightarrow> state" where
  "run_agent_parallel_call this agentId subtask s =
     (let s1 = update_agent_progress this (int agentId) ''PROCESSING...'' None s
      in s1\<lparr>trace := trace s1 @ [WorkerCall subtask]\<rparr>)"

text \<open>
  After the \<^verbatim>\<open>await\<close>, when the worker has resolved with \<open>resp\<close>, \<open>elapsed\<close> milliseconds
  after the start.
\<close>

definition run_agent_parallel_resolved ::
  "TaskOrchestrator \<Rightarrow> nat \<Rightarrow> string \<Rightarrow> int \<Rightarrow> state \<Rightarrow> AgentResult \<times> state"
where
  "run_agent_parallel_resolved this agentId resp elapsed s =
     (\<lparr>agent_id = int agentId, status = Success, response = resp,
       execution_time = of_int elapsed / 1000\<rparr>,
      update_agent_progress this (int agentId) ''COMPLETED'' (Some resp) s)"

text \<open>The \<^verbatim>\<open>catch\<close> block, when the worker has rejected with the message \<open>msg\<close>.\<close>

definition run_agent_parallel_rejected ::
  "TaskOrchestrator \<Rightarrow> nat \<Rightarrow> string \<Rightarrow> state \<Rightarrow> AgentResult \<times> state"
where
  "run_agent_parallel_rejected this agentId msg s =
     (\<lparr>agent_id = int agentId, status = Error, response = ''Error: '' @ msg,
       execution_time = 0\<rparr>,
      update_agent_progress this (int agentId) (''FAILED: '' @ msg) None s)"

text \<open>The callback of \<^verbatim>\<open>setTimeout\<close> in \<^verbatim>\<open>orchestrate\<close>.\<close>

definition timeout_callback :: "TaskOrchestrator \<Rightarrow> nat \<Rightarrow> state \<Rightarrow> AgentResult \<times> state" where
  "timeout_callback this i s =
     (\<lparr>agent_id = int i, status = Timeout,
       response = ''Agent '' @ string_of_int (int i + 1) @ '' timed out after ''
                    @ string_of_int (task_timeout this) @ ''s'',
       execution_time = of_int (task_timeout this)\<rparr>,
      update_agent_progress this (int i) ''FAILED: Timeout'' None s)"

text \<open>\<^verbatim>\<open>Promise.race\<close>: the first settlement stays.\<close>

definition race_settle :: "AgentResult \<Rightarrow> slot \<Rightarrow> slot" where
  "race_settle r sl = (case race_value sl of None \<Rightarrow> sl\<lparr>race_value := Some r\<rparr> | Some _ \<Rightarrow> sl)"

text \<open>
  One event is one callback. A promise settles once and a timer fires once, and there
  is no callback for a slot that was not launched: such an event changes nothing.
\<close>

datatype event =
    WorkerResolved nat string int
  | WorkerRejected nat string
  | TimerFired nat

fun slot_of :: "event \<Rightarrow> nat" where
  "slot_of (WorkerResolved i resp elapsed) = i"
| "slot_of (WorkerRejected i msg) = i"
| "slot_of (TimerFired i) = i"

fun step :: "TaskOrchestrator \<Rightarrow> state \<Rightarrow> event \<Rightarrow> state" where
  "step this s (WorkerResolved i resp elapsed) =
     (if i < length (slots s) \<and> \<not> worker_settled (slots s ! i) then
        (case run_agent_parallel_resolved this i resp elapsed s of
           (r, s1) \<Rightarrow>
             s1\<lparr>slots := (slots s1)[i := race_settle r ((slots s1 ! i)\<lparr>worker_settled := True\<rparr>)]\<rparr>)
      else s)"
| "step this s (WorkerRejected i msg) =
     (if i < length (slots s) \<and> \<not> worker_settled (slots s ! i) then
        (case run_agent_parallel_rejected this i msg s of
           (r, s1) \<Rightarrow>
             s1\<lparr>slots := (slots s1)[i := race_settle r ((slots s1 ! i)\<lparr>worker_settled := True\<rparr>)]\<rparr>)
      else s)"
| "step this s (TimerFired i) =
     (if i < length (slots s) \<and> \<not> timer_fired (slots s ! i) then
        (case timeout_callback this i s of
           (r, s1) \<Rightarrow>
             s1\<lparr>slots := (slots s1)[i := race_settle r ((slots s1 ! i)\<lparr>timer_fired := True\<rparr>)]\<rparr>)
      else s)"

subsection \<open>Dispatch: \<^verbatim>\<open>subtasks.map\<close>, \<^verbatim>\<open>Promise.all\<close> and the sort\<close>

definition launch_slot :: "TaskOrchestrator \<Rightarrow> nat \<Rightarrow> json \<Rightarrow> state \<Rightarrow> state" where
  "launch_slot this i subtask s =
     (let s1 = run_agent_parallel_call this i subtask s
      in s1\<lparr>slots := slots s1 @ [\<lparr>worker_settled = False, timer_fired = False, race_value = None\<rparr>]\<rparr>)"

fun launch_from :: "TaskOrchestrator \<Rightarrow> nat \<Rightarrow> json list \<Rightarrow> state \<Rightarrow> state" where
  "launch_from this i [] s = s"
| "launch_from this i (subtask # rest) s = launch_from this (Suc i) rest (launch_slot this i subtask s)"

text \<open>\<^verbatim>\<open>Promise.all\<close> over the races: the values in index order, once every race has settled.\<close>

fun promise_all :: "slot list \<Rightarrow> AgentResult list option" where
  "promise_all [] = Some []"
| "promise_all (sl # sls) =
     (case race_value sl of
        None \<Rightarrow> None
      | Some r \<Rightarrow> (case promise_all sls of None \<Rightarrow> None | Some rs \<Rightarrow> Some (r # rs)))"

text \<open>
  \<^verbatim>\<open>await Promise.all(agentPromises)\<close>: events are taken from the schedule until every race
  has settled; the events left over come later. No result means that the schedule ended
  first.
\<close>

fun await_all ::
  "TaskOrchestrator \<Rightarrow> state \<Rightarrow> event list \<Rightarrow> AgentResult list option \<times> state \<times> event list"
where
  "await_all this s [] = (promise_all (slots s), s, [])"
| "await_all this s (e # es) =
     (case promise_all (slots s) of
        Some rs \<Rightarrow> (Some rs, s, e # es)
      | None \<Rightarrow> await_all this (step this s e) es)"

text \<open>
  Lines 215 to 234 of \<^verbatim>\<open>orchestrate\<close>: the outcomes handed on, sorted by \<^verbatim>\<open>agent_id\<close>.
\<close>

definition dispatch ::
  "TaskOrchestrator \<Rightarrow> json list \<Rightarrow> event list \<Rightarrow> state
     \<Rightarrow> AgentResult list option \<times> state \<times> event list"
where
  "dispatch this subtasks schedule s =
     (case await_all this (launch_from this 0 subtasks (s\<lparr>slots := []\<rparr>)) schedule of
        (agentResults, s1, late) \<Rightarrow> (map_option (sort_key agent_id) agentResults, s1, late))"

subsection \<open>Aggregation\<close>

definition all_failed_message :: string where
  "all_failed_message = ''All agents failed to provide results. Please try again.''"

text \<open>\<open>reply\<close> is what the call of \<^verbatim>\<open>synthesisAgent.run\<close> does, if it is made.\<close>

definition aggregate_consensus ::
  "TaskOrchestrator \<Rightarrow> string promise \<Rightarrow> string list \<Rightarrow> state \<Rightarrow> string promise \<times> state"
where
  "aggregate_consensus this reply responses s =
     (if length responses = 1 then (Fulfilled (responses ! 0), s)
      else
        (let agentResponsesText =
               concat (map (\<lambda>(i, resp). ''=== AGENT '' @ string_of_int (int i + 1)
                              @ '' RESPONSE ===\<newline>'' @ resp @ ''\<newline>\<newline>'')
                         (enumerate 0 responses));
             synthesisPrompt =
               js_replace ''{agent_responses}'' agentResponsesText
                 (js_replace ''{num_responses}'' (string_of_int (int (length responses)))
                    (synthesis_prompt this));
             s1 = s\<lparr>trace := trace s @ [WorkerCall (JString synthesisPrompt)]\<rparr>
         in case reply of
              Pending \<Rightarrow> (Pending, s1)
            | Fulfilled text \<Rightarrow> (Fulfilled text, s1)
            | Rejected msg \<Rightarrow>
                (Fulfilled
                   (join ''\<newline>\<newline>''
                      (map (\<lambda>(i, resp). ''=== Agent '' @ string_of_int (int i + 1)
                              @ '' Response ===\<newline>'' @ resp)
                         (enumerate 0 responses))),
                 s1)))"

definition aggregate_results ::
  "TaskOrchestrator \<Rightarrow> string promise \<Rightarrow> AgentResult list \<Rightarrow> state \<Rightarrow> string promise \<times> state"
where
  "aggregate_results this reply agentResults s =
     (let successfulResults = filter (\<lambda>r. status r = Success) agentResults
      in if length successfulResults = 0 then (Fulfilled all_failed_message, s)
         else
           (let responses = map response successfulResults
            in if aggregation_strategy this = ''consensus''
               then aggregate_consensus this reply responses s
               else aggregate_consensus this reply responses s))"

text \<open>
  The second copy of the class (\<^verbatim>\<open>src/orchestrator.ts\<close>): the same code but for the line
  breaks of \<^verbatim>\<open>_aggregate_consensus\<close>, and \<^verbatim>\<open>aggregate_results\<close> without the strategy test.
\<close>

definition aggregate_consensus_src ::
  "TaskOrchestrator \<Rightarrow> string promise \<Rightarrow> string list \<Rightarrow> state \<Rightarrow> string promise \<times> state"
where
  "aggregate_consensus_src this reply responses s =
     (if length responses = 1 then (Fulfilled (responses ! 0), s)
      else
        (let agentResponsesText =
               concat (map (\<lambda>(i, resp). ''=== AGENT '' @ string_of_int (int i + 1)
                              @ '' RESPONSE ===\<newline>'' @ resp @ ''\<newline>'')
                         (enumerate 0 responses));
             synthesisPrompt =
               js_replace ''{agent_responses}'' agentResponsesText
                 (js_replace ''{num_responses}'' (string_of_int (int (length responses)))
                    (synthesis_prompt this));
             s1 = s\<lparr>trace := trace s @ [WorkerCall (JString synthesisPrompt)]\<rparr>
         in case reply of
              Pending \<Rightarrow> (Pending, s1)
            | Fulfilled text \<Rightarrow> (Fulfilled text, s1)
            | Rejected msg \<Rightarrow>
                (Fulfilled
                   (join ''\<newline>''
                      (map (\<lambda>(i, resp). ''=== Agent '' @ string_of_int (int i + 1)
                              @ '' Response ===\<newline>'' @ resp)
                         (enumerate 0 responses))),
                 s1)))"

definition aggregate_results_src ::
  "TaskOrchestrator \<Rightarrow> string promise \<Rightarrow> AgentResult list \<Rightarrow> state \<Rightarrow> string promise \<times> state"
where
  "aggregate_results_src this reply agentResults s =
     (let successfulResults = filter (\<lambda>r. status r = Success) agentResults
      in if length successfulResults = 0 then (Fulfilled all_failed_message, s)
         else aggregate_consensus_src this reply (map response successfulResults) s)"

subsection \<open>\<^verbatim>\<open>orchestrate\<close>\<close>

text \<open>
  One run: \<open>gen_reply\<close> and \<open>synth_reply\<close> are what the decomposition and the synthesis
  worker calls do, \<open>schedule\<close> is the order of the slots' callbacks.

  \<open>orchestrate_dispatch\<close> is \<^verbatim>\<open>orchestrate\<close> up to the sort (lines 205 to 234): its value is
  the outcome sequence that is handed to \<^verbatim>\<open>aggregate_results\<close>, with the callbacks that
  have not run yet.
\<close>

definition orchestrate_dispatch ::
  "(string \<Rightarrow> json option) \<Rightarrow> TaskOrchestrator \<Rightarrow> string promise \<Rightarrow> event list \<Rightarrow> string \<Rightarrow> state
     \<Rightarrow> AgentResult list promise \<times> state \<times> event list"
where
  "orchestrate_dispatch JSON_parse this gen_reply schedule userInput s =
     (let s0 = s\<lparr>store := (store s)[agent_progress this := [], agent_results this := []]\<rparr>;
          s1 = update_agent_progress this (- 1) ''INITIALIZING...'' None s0
      in case decompose_task JSON_parse this gen_reply userInput (num_agents this) s1 of
           (Pending, s2) \<Rightarrow> (Pending, s2, schedule)
         | (Rejected msg, s2) \<Rightarrow> (Rejected msg, s2, schedule)
         | (Fulfilled subtasks, s2) \<Rightarrow>
             (let s3 = fold (\<lambda>i. progress_set this (int i) ''QUEUED'') [0..<nat (num_agents this)] s2
              in case dispatch this subtasks schedule s3 of
                   (None, s4, late) \<Rightarrow> (Pending, s4, late)
                 | (Some agentResults, s4, late) \<Rightarrow> (Fulfilled agentResults, s4, late)))"

text \<open>
  The rest of \<^verbatim>\<open>orchestrate\<close>. The callbacks left when \<^verbatim>\<open>Promise.all\<close> has resolved still
  run, during the synthesis call or after the return: the state returned is the state
  after them.
\<close>

definition orchestrate ::
  "(string \<Rightarrow> json option) \<Rightarrow> TaskOrchestrator \<Rightarrow> string promise \<Rightarrow> event list \<Rightarrow> string promise
     \<Rightarrow> string \<Rightarrow> state \<Rightarrow> string promise \<times> state"
where
  "orchestrate JSON_parse this gen_reply schedule synth_reply userInput s =
     (case orchestrate_dispatch JSON_parse this gen_reply schedule userInput s of
        (Pending, s4, late) \<Rightarrow> (Pending, s4)
      | (Rejected msg, s4, late) \<Rightarrow> (Rejected msg, s4)
      | (Fulfilled agentResults, s4, late) \<Rightarrow>
          (let s5 = update_agent_progress this (- 1) ''AGGREGATING...'' None s4
           in case aggregate_results this synth_reply agentResults s5 of
                (res, s6) \<Rightarrow> (res, foldl (step this) s6 late)))"

subsection \<open>A concrete orchestrator\<close>

text \<open>
  An orchestrator as the constructor builds it in the empty store, for \<open>n\<close> agents and a
  timeout of 300 seconds, and the state the constructor leaves.
\<close>

definition empty_state :: state where
  "empty_state = \<lparr>store = [], trace = [], slots = []\<rparr>"

definition demo_orchestrator :: "int \<Rightarrow> TaskOrchestrator" where
  "demo_orchestrator n =
     fst (new_TaskOrchestrator ''{num_agents} questions on {user_input}''
            ''Merge {num_responses}: {agent_responses}'' n 300 ''consensus'' empty_state)"

definition demo_state :: state where
  "demo_state =
     snd (new_TaskOrchestrator ''{num_agents} questions on {user_input}''
            ''Merge {num_responses}: {agent_responses}'' 2 300 ''consensus'' empty_state)"

text \<open>One slot launched, whose worker has resolved after 1.2 seconds.\<close>

definition demo_completed :: state where
  "demo_completed =
     step (demo_orchestrator 1)
       (launch_from (demo_orchestrator 1) 0 [JString ''q''] demo_state)
       (WorkerResolved 0 ''done'' 1200)"

text \<open>One slot launched, whose timer has fired.\<close>

definition demo_timed_out :: state where
  "demo_timed_out =
     step (demo_orchestrator 1)
       (launch_from (demo_orchestrator 1) 0 [JString ''q''] demo_state)
       (TimerFired 0)"

section \<open>Properties\<close>

subsection \<open>The trace\<close>

lemma effect_calls_append [simp]:
  "effect_calls (xs @ ys) = effect_calls xs @ effect_calls ys"
  by (induction xs rule: effect_calls.induct) simp_all

lemma effect_writes_append [simp]:
  "effect_writes (xs @ ys) = effect_writes xs @ effect_writes ys"
  by (induction xs rule: effect_writes.induct) simp_all

lemma no_sentinel_write_append [simp]:
  "no_sentinel_write (xs @ ys) \<longleftrightarrow> no_sentinel_write xs \<and> no_sentinel_write ys"
  by (induction xs rule: no_sentinel_write.induct) simp_all

lemma calls_update [simp]:
  "calls (s\<lparr>trace := t\<rparr>) = effect_calls t"
  "calls (s\<lparr>store := st\<rparr>) = calls s"
  "calls (s\<lparr>slots := sls\<rparr>) = calls s"
  by (simp_all add: calls_def)

lemma progress_writes_update [simp]:
  "progress_writes (s\<lparr>trace := t\<rparr>) = effect_writes t"
  "progress_writes (s\<lparr>store := st\<rparr>) = progress_writes s"
  "progress_writes (s\<lparr>slots := sls\<rparr>) = progress_writes s"
  by (simp_all add: progress_writes_def)

subsection \<open>Slots under the callbacks\<close>

lemmas callback_defs = Let_def
  run_agent_parallel_resolved_def run_agent_parallel_rejected_def timeout_callback_def
  update_agent_progress_def progress_set_def results_set_def

lemma slots_update_agent_progress [simp]:
  "slots (update_agent_progress this k v r s) = slots s"
  by (simp add: update_agent_progress_def progress_set_def results_set_def Let_def split: option.splits)

lemma length_slots_step [simp]: "length (slots (step this s e)) = length (slots s)"
  by (cases e) (simp_all add: callback_defs split: option.splits)

lemma slots_step_other: "slot_of e \<noteq> j \<Longrightarrow> slots (step this s e) ! j = slots s ! j"
  by (cases e) (simp_all add: callback_defs split: option.splits)

lemma race_settle_settled: "race_value sl = Some r \<Longrightarrow> race_value (race_settle r' sl) = Some r"
  by (simp add: race_settle_def)

lemma race_value_step_settled:
  "race_value (slots s ! j) = Some r \<Longrightarrow> race_value (slots (step this s e) ! j) = Some r"
  by (cases e) (auto simp add: callback_defs race_settle_def nth_list_update split: option.splits)

lemma race_value_foldl_settled:
  "race_value (slots s ! j) = Some r \<Longrightarrow> race_value (slots (foldl (step this) s es) ! j) = Some r"
  by (induction es arbitrary: s) (simp_all add: race_value_step_settled)

lemma promise_all_Some_iff: "promise_all sls = Some rs \<longleftrightarrow> map race_value sls = map Some rs"
proof (induction sls arbitrary: rs)
  case Nil
  then show ?case by auto
next
  case (Cons sl sls)
  show ?case
  proof (cases rs)
    case Nil
    then show ?thesis by (simp split: option.splits)
  next
    case (Cons r rs')
    with Cons.IH [of rs'] show ?thesis by (auto split: option.splits)
  qed
qed

lemma promise_all_None_iff:
  "promise_all sls = None \<longleftrightarrow> (\<exists>sl \<in> set sls. race_value sl = None)"
  by (induction sls) (auto split: option.splits)

lemma await_all_split:
  "await_all this s evs = (res, s1, late) \<Longrightarrow>
     \<exists>pre. evs = pre @ late \<and> s1 = foldl (step this) s pre \<and> res = promise_all (slots s1)"
proof (induction evs arbitrary: s)
  case Nil
  then show ?case by auto
next
  case (Cons e es)
  show ?case
  proof (cases "promise_all (slots s)")
    case None
    with Cons.prems have "await_all this (step this s e) es = (res, s1, late)" by simp
    from Cons.IH [OF this] obtain pre where
      "es = pre @ late" "s1 = foldl (step this) (step this s e) pre" "res = promise_all (slots s1)"
      by blast
    then have "e # es = (e # pre) @ late \<and> s1 = foldl (step this) s (e # pre)
                 \<and> res = promise_all (slots s1)"
      by simp
    then show ?thesis by blast
  next
    case (Some rs)
    with Cons.prems have "e # es = [] @ late \<and> s1 = foldl (step this) s [] \<and> res = promise_all (slots s1)"
      by auto
    then show ?thesis by blast
  qed
qed

lemma slots_launch_slot:
  "slots (launch_slot this i subtask s)
     = slots s @ [\<lparr>worker_settled = False, timer_fired = False, race_value = None\<rparr>]"
  by (simp add: launch_slot_def run_agent_parallel_call_def Let_def)

lemma slots_launch_from:
  "slots (launch_from this i subtasks s)
     = slots s @ replicate (length subtasks)
                  \<lparr>worker_settled = False, timer_fired = False, race_value = None\<rparr>"
  by (induction subtasks arbitrary: i s) (simp_all add: slots_launch_slot replicate_app_Cons_same)

lemma length_slots_foldl [simp]: "length (slots (foldl (step this) s es)) = length (slots s)"
  by (induction es arbitrary: s) simp_all

lemma step_outstanding:
  assumes "\<forall>j<length (slots s). race_value (slots s ! j) = None \<longrightarrow>
             \<not> worker_settled (slots s ! j) \<and> \<not> timer_fired (slots s ! j)"
  shows "\<forall>j<length (slots (step this s e)). race_value (slots (step this s e) ! j) = None \<longrightarrow>
           \<not> worker_settled (slots (step this s e) ! j) \<and> \<not> timer_fired (slots (step this s e) ! j)"
  using assms
  by (cases e) (auto simp add: callback_defs race_settle_def nth_list_update split: option.splits)

lemma step_aligned:
  assumes "\<forall>j<length (slots s). \<forall>r. race_value (slots s ! j) = Some r \<longrightarrow> agent_id r = int j"
  shows "\<forall>j<length (slots (step this s e)). \<forall>r.
           race_value (slots (step this s e) ! j) = Some r \<longrightarrow> agent_id r = int j"
  using assms
  by (cases e) (auto simp add: callback_defs race_settle_def nth_list_update split: option.splits)

lemma foldl_aligned:
  assumes "\<forall>j<length (slots s). \<forall>r. race_value (slots s ! j) = Some r \<longrightarrow> agent_id r = int j"
  shows "\<forall>j<length (slots s). \<forall>r.
           race_value (slots (foldl (step this) s es) ! j) = Some r \<longrightarrow> agent_id r = int j"
  using assms
proof (induction es arbitrary: s)
  case Nil
  then show ?case by simp
next
  case (Cons e es)
  from step_aligned [OF Cons.prems, of this e] Cons.IH [of "step this s e"]
  show ?case by simp
qed

lemma timer_settles:
  assumes "i < length (slots s)" "race_value (slots s ! i) = None" "\<not> timer_fired (slots s ! i)"
  shows "race_value (slots (step this s (TimerFired i)) ! i)
           = Some \<lparr>agent_id = int i, status = Timeout,
                   response = ''Agent '' @ string_of_int (int i + 1) @ '' timed out after ''
                                @ string_of_int (task_timeout this) @ ''s'',
                   execution_time = of_int (task_timeout this)\<rparr>"
  using assms by (simp add: callback_defs race_settle_def)

lemma first_timer_wins:
  assumes "i < length (slots s)" "race_value (slots s ! i) = None" "\<not> timer_fired (slots s ! i)"
    and "find (\<lambda>e. slot_of e = i) (pre @ late) = Some (TimerFired i)"
  shows "race_value (slots (foldl (step this) s pre) ! i) = None
       \<or> race_value (slots (foldl (step this) s pre) ! i)
           = Some \<lparr>agent_id = int i, status = Timeout,
                   response = ''Agent '' @ string_of_int (int i + 1) @ '' timed out after ''
                                @ string_of_int (task_timeout this) @ ''s'',
                   execution_time = of_int (task_timeout this)\<rparr>"
  using assms
proof (induction pre arbitrary: s)
  case Nil
  then show ?case by simp
next
  case (Cons e pre)
  show ?case
  proof (cases "slot_of e = i")
    case True
    with Cons.prems(4) have e: "e = TimerFired i" by simp
    from timer_settles [OF Cons.prems(1-3), of this] e
    show ?thesis by (simp add: race_value_foldl_settled)
  next
    case False
    then have same: "slots (step this s e) ! i = slots s ! i" by (rule slots_step_other)
    from False Cons.prems(4) have "find (\<lambda>e. slot_of e = i) (pre @ late) = Some (TimerFired i)"
      by simp
    with Cons.IH [of "step this s e"] Cons.prems(1-3) same show ?thesis by simp
  qed
qed

lemma await_all_completes:
  assumes "\<forall>j<length (slots s). race_value (slots s ! j) = None \<longrightarrow>
             \<not> worker_settled (slots s ! j) \<and> \<not> timer_fired (slots s ! j)"
    and "\<forall>j<length (slots s). race_value (slots s ! j) = None \<longrightarrow> TimerFired j \<in> set evs"
  shows "fst (await_all this s evs) \<noteq> None"
  using assms
proof (induction evs arbitrary: s)
  case Nil
  then show ?case by (auto simp add: promise_all_None_iff in_set_conv_nth)
next
  case (Cons e es)
  show ?case
  proof (cases "promise_all (slots s)")
    case (Some rs)
    then show ?thesis by simp
  next
    case None
    have out: "\<forall>j<length (slots (step this s e)). race_value (slots (step this s e) ! j) = None \<longrightarrow>
           \<not> worker_settled (slots (step this s e) ! j) \<and> \<not> timer_fired (slots (step this s e) ! j)"
      by (rule step_outstanding [OF Cons.prems(1)])
    have rest: "\<forall>j<length (slots (step this s e)).
                  race_value (slots (step this s e) ! j) = None \<longrightarrow> TimerFired j \<in> set es"
    proof (intro allI impI)
      fix j
      assume j: "j < length (slots (step this s e))"
        and unsettled: "race_value (slots (step this s e) ! j) = None"
      have before: "race_value (slots s ! j) = None"
      proof (cases "race_value (slots s ! j)")
        case None
        then show ?thesis .
      next
        case (Some r)
        from race_value_step_settled [OF this, of this e] unsettled show ?thesis by simp
      qed
      with Cons.prems j have fresh: "\<not> timer_fired (slots s ! j)" and "TimerFired j \<in> set (e # es)"
        by simp_all
      moreover have "e \<noteq> TimerFired j"
      proof
        assume e: "e = TimerFired j"
        from j have "j < length (slots s)" by simp
        from timer_settles [OF this before fresh, of this] unsettled show False
          unfolding e by (simp del: step.simps)
      qed
      ultimately show "TimerFired j \<in> set es" by auto
    qed
    from Cons.IH [OF out rest] None show ?thesis by simp
  qed
qed

subsection \<open>What the dispatch returns\<close>

lemma sort_aligned:
  assumes "\<forall>j<length rs. agent_id (rs ! j) = int j"
  shows "sort_key agent_id rs = rs"
proof -
  have "map agent_id rs = map int [0..<length rs]"
    by (rule nth_equalityI) (use assms in simp_all)
  moreover have "sorted (map int [0..<length rs])"
    by (simp add: sorted_iff_nth_mono)
  ultimately show ?thesis by (simp add: sort_key_id_if_sorted)
qed

lemma dispatch_result:
  assumes "dispatch this subtasks schedule s = (Some rs, s1, late)"
  shows "length rs = length subtasks
       \<and> (\<forall>j<length subtasks. agent_id (rs ! j) = int j \<and> race_value (slots s1 ! j) = Some (rs ! j))
       \<and> (\<exists>pre. schedule = pre @ late
             \<and> s1 = foldl (step this) (launch_from this 0 subtasks (s\<lparr>slots := []\<rparr>)) pre)"
proof -
  let ?s0 = "launch_from this 0 subtasks (s\<lparr>slots := []\<rparr>)"
  from assms obtain rs0 where aw: "await_all this ?s0 schedule = (Some rs0, s1, late)"
    and rs: "rs = sort_key agent_id rs0"
    by (auto simp add: dispatch_def split: prod.splits)
  from await_all_split [OF aw] obtain pre where
    pre: "schedule = pre @ late" "s1 = foldl (step this) ?s0 pre"
    and all: "promise_all (slots s1) = Some rs0"
    by auto
  have len0: "length (slots ?s0) = length subtasks"
    by (simp add: slots_launch_from)
  from all have vals: "map race_value (slots s1) = map Some rs0"
    by (simp add: promise_all_Some_iff)
  then have "length (slots s1) = length rs0"
    by (metis length_map)
  with pre(2) len0 have len: "length rs0 = length subtasks" by simp
  have "\<forall>j<length (slots ?s0). \<forall>r. race_value (slots ?s0 ! j) = Some r \<longrightarrow> agent_id r = int j"
    by (simp add: slots_launch_from)
  from foldl_aligned [OF this, of this pre] pre(2) len0
  have al: "\<forall>j<length subtasks. \<forall>r. race_value (slots s1 ! j) = Some r \<longrightarrow> agent_id r = int j"
    by simp
  have nth: "race_value (slots s1 ! j) = Some (rs0 ! j)" if "j < length subtasks" for j
  proof -
    from that len vals have "map race_value (slots s1) ! j = map Some rs0 ! j" by simp
    with that len \<open>length (slots s1) = length rs0\<close> show ?thesis by simp
  qed
  with al len have "\<forall>j<length rs0. agent_id (rs0 ! j) = int j" by simp
  then have "sort_key agent_id rs0 = rs0" by (rule sort_aligned)
  with rs have "rs = rs0" by simp
  with len al nth pre show ?thesis by auto
qed

lemma dispatch_completes:
  assumes "\<forall>j<length subtasks. TimerFired j \<in> set schedule"
  shows "fst (dispatch this subtasks schedule s) \<noteq> None"
proof -
  let ?s0 = "launch_from this 0 subtasks (s\<lparr>slots := []\<rparr>)"
  have "fst (await_all this ?s0 schedule) \<noteq> None"
    by (rule await_all_completes) (use assms in \<open>simp_all add: slots_launch_from\<close>)
  then show ?thesis
    by (auto simp add: dispatch_def split: prod.splits)
qed

lemma dispatch_timeout:
  assumes i: "i < length subtasks"
    and first: "find (\<lambda>e. slot_of e = i) schedule = Some (TimerFired i)"
    and timers: "\<forall>j<length subtasks. TimerFired j \<in> set schedule"
  shows "\<exists>rs s1 late. dispatch this subtasks schedule s = (Some rs, s1, late)
           \<and> length rs = length subtasks
           \<and> rs ! i = \<lparr>agent_id = int i, status = Timeout,
                   response = ''Agent '' @ string_of_int (int i + 1) @ '' timed out after ''
                                @ string_of_int (task_timeout this) @ ''s'',
                   execution_time = of_int (task_timeout this)\<rparr>"
proof -
  let ?s0 = "launch_from this 0 subtasks (s\<lparr>slots := []\<rparr>)"
  from dispatch_completes [OF timers, of this s] obtain rs s1 late where
    d: "dispatch this subtasks schedule s = (Some rs, s1, late)"
    by (cases "dispatch this subtasks schedule s") auto
  from dispatch_result [OF d] i obtain pre where
    len: "length rs = length subtasks"
    and val: "race_value (slots s1 ! i) = Some (rs ! i)"
    and pre: "schedule = pre @ late" "s1 = foldl (step this) ?s0 pre"
    by auto
  have "i < length (slots ?s0)" "race_value (slots ?s0 ! i) = None" "\<not> timer_fired (slots ?s0 ! i)"
    using i by (simp_all add: slots_launch_from)
  from first_timer_wins [OF this, of pre late this] first pre val
  have "rs ! i = \<lparr>agent_id = int i, status = Timeout,
                   response = ''Agent '' @ string_of_int (int i + 1) @ '' timed out after ''
                                @ string_of_int (task_timeout this) @ ''s'',
                   execution_time = of_int (task_timeout this)\<rparr>"
    by simp
  with d len show ?thesis by blast
qed

subsection \<open>Decimal numerals\<close>

lemma string_of_nat_digit: "n < 10 \<Longrightarrow> string_of_nat n = [''0123456789'' ! n]"
  by (simp add: string_of_nat.simps [of n] digit_char_def)

lemma string_of_int_0: "string_of_int 0 = ''0''"
  by (simp add: string_of_int_def string_of_nat_digit)

lemma string_of_int_1: "string_of_int 1 = ''1''"
  by (simp add: string_of_int_def string_of_nat_digit)

lemma string_of_int_2: "string_of_int 2 = ''2''"
  by (simp add: string_of_int_def string_of_nat_digit)

subsection \<open>Decomposition\<close>

lemma wf_new_TaskOrchestrator:
  "wf (fst (new_TaskOrchestrator qprompt sprompt n t strategy s))
      (snd (new_TaskOrchestrator qprompt sprompt n t strategy s))"
  by (simp add: wf_def new_TaskOrchestrator_def)

text \<open>
  Up to four agents the subtasks are as many as asked for, whatever the worker does,
  once it has settled.
\<close>

lemma decompose_task_length_up_to_four:
  assumes "0 \<le> n" and "n \<le> 4" and "reply \<noteq> Pending"
  shows "\<exists>qs. fst (decompose_task JSON_parse this reply userInput n s) = Fulfilled qs
           \<and> int (length qs) = n"
  using assms
  by (cases reply)
    (auto simp add: decompose_task_def slice0_def fallbackQuestions_def Let_def
       split: option.splits json.splits)

text \<open>
  Claim C1 says that \<^verbatim>\<open>decompose_task(userInput, n)\<close> returns exactly \<open>n\<close> subtasks for
  every \<open>n \<ge> 1\<close>, also when it falls back. The fallback is \<^verbatim>\<open>fallbackQuestions.slice(0, n)\<close>
  of a list of four: for \<open>n = 5\<close> and a worker call that fails, four subtasks are returned.
\<close>

theorem decompose_task_fallback_too_short:
  "fst (decompose_task JSON_parse this (Rejected msg) userInput 5 s)
     = Fulfilled [JString (''Research comprehensive information about: '' @ userInput),
                  JString (''Analyze and provide insights about: '' @ userInput),
                  JString (''Find alternative perspectives on: '' @ userInput),
                  JString (''Verify and cross-check facts about: '' @ userInput)]"
  by (simp add: decompose_task_def slice0_def fallbackQuestions_def Let_def)

subsection \<open>Aggregation\<close>

text \<open>
  Claim C5: when no outcome has the status \<^verbatim>\<open>success\<close>, \<^verbatim>\<open>aggregate_results\<close> returns the
  fixed message as its value (the promise is fulfilled, not rejected), whatever the
  synthesis worker would do, and the state is as before: no worker is called.
\<close>

theorem aggregate_results_all_failed:
  assumes "\<forall>r \<in> set agentResults. status r \<noteq> Success"
  shows "aggregate_results this reply agentResults s
           = (Fulfilled ''All agents failed to provide results. Please try again.'', s)"
proof -
  from assms have "filter (\<lambda>r. status r = Success) agentResults = []"
    by (simp add: filter_empty_conv)
  then show ?thesis
    by (simp add: aggregate_results_def all_failed_message_def)
qed

theorem aggregate_results_all_failed_witness:
  "aggregate_results (demo_orchestrator 2) Pending
     [\<lparr>agent_id = 0, status = Error, response = ''Error: down'', execution_time = 0\<rparr>,
      \<lparr>agent_id = 1, status = Timeout, response = ''Agent 2 timed out after 300s'',
        execution_time = 300\<rparr>]
     demo_state
   = (Fulfilled ''All agents failed to provide results. Please try again.'', demo_state)"
  using aggregate_results_all_failed
    [of "[\<lparr>agent_id = 0, status = Error, response = ''Error: down'', execution_time = 0\<rparr>,
          \<lparr>agent_id = 1, status = Timeout, response = ''Agent 2 timed out after 300s'',
            execution_time = 300\<rparr>]" "demo_orchestrator 2" Pending demo_state]
  by simp

text \<open>
  Claim C6: when exactly one outcome has the status \<^verbatim>\<open>success\<close>, \<^verbatim>\<open>aggregate_results\<close>
  returns that outcome's response unchanged, and the state is as before: the synthesis
  worker is not called. Both copies of the class agree.
\<close>

theorem aggregate_results_single_success:
  assumes "filter (\<lambda>r. status r = Success) agentResults = [r]"
  shows "aggregate_results this reply agentResults s = (Fulfilled (response r), s)
       \<and> aggregate_results_src this reply agentResults s = (Fulfilled (response r), s)"
  using assms
  by (simp add: aggregate_results_def aggregate_results_src_def aggregate_consensus_def
      aggregate_consensus_src_def)

theorem aggregate_results_single_success_witness:
  "aggregate_results (demo_orchestrator 2) Pending
     [\<lparr>agent_id = 0, status = Timeout, response = ''Agent 1 timed out after 300s'',
        execution_time = 300\<rparr>,
      \<lparr>agent_id = 1, status = Success, response = ''forty-two'', execution_time = 6 / 5\<rparr>]
     demo_state
   = (Fulfilled ''forty-two'', demo_state)"
  using aggregate_results_single_success
    [of "[\<lparr>agent_id = 0, status = Timeout, response = ''Agent 1 timed out after 300s'',
            execution_time = 300\<rparr>,
          \<lparr>agent_id = 1, status = Success, response = ''forty-two'', execution_time = 6 / 5\<rparr>]"
        "\<lparr>agent_id = 1, status = Success, response = ''forty-two'', execution_time = 6 / 5\<rparr>"
        "demo_orchestrator 2" Pending demo_state]
  by simp

text \<open>
  Claim C7 says that the fallback after a failed synthesis separates the labelled
  responses by blank lines. \<^verbatim>\<open>orchestrator.ts\<close> joins them with two line breaks; the copy
  in \<^verbatim>\<open>src/orchestrator.ts\<close> joins them with one, so that no blank line stands between
  two responses.
\<close>

theorem aggregate_consensus_src_single_line_break:
  "fst (aggregate_consensus_src this (Rejected msg) [''a'', ''b''] s)
     = Fulfilled ''=== Agent 1 Response ===\<newline>a\<newline>=== Agent 2 Response ===\<newline>b''
   \<and> fst (aggregate_consensus this (Rejected msg) [''a'', ''b''] s)
     = Fulfilled ''=== Agent 1 Response ===\<newline>a\<newline>\<newline>=== Agent 2 Response ===\<newline>b''"
  by (simp add: aggregate_consensus_src_def aggregate_consensus_def Let_def enumerate_eq_zip
      string_of_int_1 string_of_int_2 upt_rec)

subsection \<open>No agents\<close>

lemma decompose_task_zero:
  assumes "reply \<noteq> Pending"
  shows "decompose_task JSON_parse this reply userInput 0 s
           = (Fulfilled [],
              s\<lparr>trace := trace s @
                   [WorkerCall (JString (js_replace ''{num_agents}'' ''0''
                      (js_replace ''{user_input}'' userInput (question_generation_prompt this))))]\<rparr>)"
  using assms
  by (cases reply)
    (auto simp add: decompose_task_def slice0_def Let_def string_of_int_0
       split: option.splits json.splits)

lemma dispatch_nil: "dispatch this [] schedule s = (Some [], s\<lparr>slots := []\<rparr>, schedule)"
  by (cases schedule) (simp_all add: dispatch_def)

lemma foldl_step_no_slots: "slots s = [] \<Longrightarrow> foldl (step this) s es = s"
proof (induction es)
  case Nil
  then show ?case by simp
next
  case (Cons e es)
  from Cons.prems have "step this s e = s" by (cases e) simp_all
  with Cons show ?case by simp
qed

lemma slots_fold_progress_set [simp]:
  "slots (fold (\<lambda>i. progress_set this (f i) v) is s) = slots s"
  by (induction "is" arbitrary: s) (simp_all add: progress_set_def)

lemma calls_update_agent_progress [simp]:
  "calls (update_agent_progress this k v r s) = calls s"
  by (simp add: update_agent_progress_def progress_set_def results_set_def Let_def calls_def
      split: option.splits)

text \<open>
  Claim C10: with \<^verbatim>\<open>parallel_agents\<close> equal to 0, \<^verbatim>\<open>orchestrate\<close> raises nothing. Once the
  decomposition worker has settled (with a text or with an error), the run returns the
  fixed message; no slot was launched, and the only worker call made is the
  decomposition call.
\<close>

theorem orchestrate_zero_agents:
  assumes "num_agents this = 0" and "gen_reply \<noteq> Pending"
  shows "fst (orchestrate JSON_parse this gen_reply schedule synth_reply userInput s)
           = Fulfilled ''All agents failed to provide results. Please try again.''
       \<and> slots (snd (orchestrate JSON_parse this gen_reply schedule synth_reply userInput s)) = []
       \<and> calls (snd (orchestrate JSON_parse this gen_reply schedule synth_reply userInput s))
           = calls s @ [JString (js_replace ''{num_agents}'' ''0''
                          (js_replace ''{user_input}'' userInput (question_generation_prompt this)))]"
  using assms
  by (simp add: orchestrate_def orchestrate_dispatch_def decompose_task_zero dispatch_nil
      aggregate_results_def all_failed_message_def foldl_step_no_slots Let_def
      calls_def [symmetric])

theorem orchestrate_zero_agents_witness:
  "fst (orchestrate (\<lambda>t. None) (demo_orchestrator 0) (Fulfilled ''[]'') [TimerFired 0] Pending
          ''cats'' demo_state)
     = Fulfilled ''All agents failed to provide results. Please try again.''"
  using orchestrate_zero_agents
    [where this = "demo_orchestrator 0" and gen_reply = "Fulfilled ''[]''"
       and JSON_parse = "\<lambda>t. None" and schedule = "[TimerFired 0]" and synth_reply = Pending
       and userInput = "''cats''" and s = demo_state]
  by (simp add: demo_orchestrator_def new_TaskOrchestrator_def)

subsection \<open>Progress snapshots\<close>

lemma map_get_map_set [simp]: "map_get k (map_set k v m) = Some v"
  by (induction m) (auto simp add: map_get_def)

lemma length_store_fold_mutate [simp]: "length (store (fold (mutate a) ops s)) = length (store s)"
  by (induction ops arbitrary: s) (simp_all add: mutate_def)

lemma store_fold_mutate_other: "b \<noteq> a \<Longrightarrow> store (fold (mutate a) ops s) ! b = store s ! b"
  by (induction ops arbitrary: s) (simp_all add: mutate_def)

text \<open>
  Claim C8: \<^verbatim>\<open>get_progress_status\<close> returns a copy of the live progress map that is an object
  of its own. Two calls in a row, with no status change between them, return equal
  mappings (both equal to the live map); whatever the caller then does to the first
  snapshot (\<^verbatim>\<open>set\<close>, \<^verbatim>\<open>delete\<close>, \<^verbatim>\<open>clear\<close>, any number of times) changes neither the live map,
  nor the other snapshot, nor the snapshot returned next.
\<close>

theorem get_progress_status_independent_copy:
  assumes "wf this s"
    and "get_progress_status this s = (a1, s1)"
    and "get_progress_status this s1 = (a2, s2)"
    and "get_progress_status this (fold (mutate a1) ops s2) = (a3, s3)"
  shows "store s2 ! a1 = progress this s \<and> store s2 ! a2 = progress this s
       \<and> progress this (fold (mutate a1) ops s2) = progress this s
       \<and> store (fold (mutate a1) ops s2) ! a2 = progress this s
       \<and> store s3 ! a3 = progress this s
       \<and> a1 \<noteq> agent_progress this \<and> a2 \<noteq> agent_progress this \<and> a3 \<noteq> agent_progress this
       \<and> a2 \<noteq> a1 \<and> a3 \<noteq> a1 \<and> a3 \<noteq> a2"
proof -
  from assms(1) have live: "agent_progress this < length (store s)"
    by (simp add: wf_def)
  from assms(2) have 1: "a1 = length (store s)" "store s1 = store s @ [progress this s]"
    by (auto simp add: get_progress_status_def progress_def)
  from assms(3) 1 live have 2: "a2 = Suc (length (store s))"
    "store s2 = store s @ [progress this s, progress this s]"
    by (auto simp add: get_progress_status_def progress_def nth_append)
  let ?m = "fold (mutate a1) ops s2"
  have len: "length (store ?m) = Suc (Suc (length (store s)))"
    using 2 by simp
  have live_m: "store ?m ! agent_progress this = progress this s"
    using live 1 2 by (simp add: store_fold_mutate_other nth_append progress_def)
  have snap2_m: "store ?m ! a2 = progress this s"
    using 1 2 by (simp add: store_fold_mutate_other nth_append)
  from assms(4) len live_m have 3: "a3 = Suc (Suc (length (store s)))"
    "store s3 ! a3 = progress this s"
    by (auto simp add: get_progress_status_def progress_def nth_append)
  from 1 2 3 live live_m snap2_m show ?thesis
    by (simp add: nth_append progress_def)
qed

theorem get_progress_status_independent_copy_witness:
  "progress (demo_orchestrator 1)
     (fold (mutate (fst (get_progress_status (demo_orchestrator 1) demo_completed)))
        [MapSet 0 ''FAILED'', MapDelete (- 1), MapClear]
        (snd (get_progress_status (demo_orchestrator 1)
           (snd (get_progress_status (demo_orchestrator 1) demo_completed)))))
     = [(0, ''COMPLETED'')]
   \<and> fst (get_progress_status (demo_orchestrator 1) demo_completed) = 2"
proof -
  have w: "wf (demo_orchestrator 1) demo_completed"
    by (simp add: wf_def demo_orchestrator_def demo_completed_def demo_state_def
        new_TaskOrchestrator_def empty_state_def launch_slot_def run_agent_parallel_call_def
        callback_defs race_settle_def)
  have p: "progress (demo_orchestrator 1) demo_completed = [(0, ''COMPLETED'')]"
    by (simp add: progress_def demo_orchestrator_def demo_completed_def demo_state_def
        new_TaskOrchestrator_def empty_state_def launch_slot_def run_agent_parallel_call_def
        callback_defs race_settle_def)
  have a: "fst (get_progress_status (demo_orchestrator 1) demo_completed) = 2"
    by (simp add: get_progress_status_def demo_orchestrator_def demo_completed_def demo_state_def
        new_TaskOrchestrator_def empty_state_def launch_slot_def run_agent_parallel_call_def
        callback_defs race_settle_def)
  from get_progress_status_independent_copy
    [OF w surjective_pairing surjective_pairing surjective_pairing,
     of "[MapSet 0 ''FAILED'', MapDelete (- 1), MapClear]"]
  have "progress (demo_orchestrator 1)
     (fold (mutate (fst (get_progress_status (demo_orchestrator 1) demo_completed)))
        [MapSet 0 ''FAILED'', MapDelete (- 1), MapClear]
        (snd (get_progress_status (demo_orchestrator 1)
           (snd (get_progress_status (demo_orchestrator 1) demo_completed)))))
     = progress (demo_orchestrator 1) demo_completed"
    by simp
  with p a show ?thesis by simp
qed

subsection \<open>The sentinel slot\<close>

lemma sentinel_writes_progress_set:
  "sentinel_writes (progress_set this k v s) = sentinel_writes s @ (if k = - 1 then [v] else [])"
  by (simp add: sentinel_writes_def progress_set_def progress_writes_def)

lemma sentinel_writes_update_agent_progress:
  "sentinel_writes (update_agent_progress this k v r s)
     = sentinel_writes s @ (if k = - 1 then [v] else [])"
  by (simp add: sentinel_writes_def update_agent_progress_def progress_set_def results_set_def
      progress_writes_def Let_def split: option.splits)

lemma sentinel_writes_slots_update [simp]:
  "sentinel_writes (s\<lparr>slots := sls\<rparr>) = sentinel_writes s"
  "sentinel_writes (s\<lparr>store := st\<rparr>) = sentinel_writes s"
  "sentinel_writes (s\<lparr>trace := trace s @ [WorkerCall p]\<rparr>) = sentinel_writes s"
  by (simp_all add: sentinel_writes_def progress_writes_def)

lemma sentinel_writes_step [simp]: "sentinel_writes (step this s e) = sentinel_writes s"
  by (cases e)
    (simp_all add: run_agent_parallel_resolved_def run_agent_parallel_rejected_def
       timeout_callback_def sentinel_writes_update_agent_progress)

lemma sentinel_writes_foldl_step [simp]:
  "sentinel_writes (foldl (step this) s es) = sentinel_writes s"
  by (induction es arbitrary: s) simp_all


lemma sentinel_writes_launch_from [simp]:
  "sentinel_writes (launch_from this i subtasks s) = sentinel_writes s"
  by (induction subtasks arbitrary: i s)
    (simp_all add: launch_slot_def run_agent_parallel_call_def Let_def
       sentinel_writes_update_agent_progress)


lemma sentinel_writes_queued [simp]:
  "sentinel_writes (fold (\<lambda>i. progress_set this (int i) v) is s) = sentinel_writes s"
  by (induction "is" arbitrary: s) (simp_all add: sentinel_writes_progress_set)

















subsection \<open>The losing branch of a race\<close>

lemma first_settlement_progress_timer:
  assumes "wf this s" "i < length (slots s)" "\<not> timer_fired (slots s ! i)"
  shows "map_get (int i) (progress this (step this s (TimerFired i))) = Some ''FAILED: Timeout''"
  using assms by (simp add: callback_defs progress_def wf_def)

lemma first_settlement_progress_resolved:
  assumes "wf this s" "i < length (slots s)" "\<not> worker_settled (slots s ! i)"
  shows "map_get (int i) (progress this (step this s (WorkerResolved i resp elapsed))) = Some ''COMPLETED''
       \<and> map_get (int i) (store (step this s (WorkerResolved i resp elapsed)) ! agent_results this)
           = Some resp"
  using assms by (simp add: callback_defs progress_def wf_def)

lemma first_settlement_progress_rejected:
  assumes "wf this s" "i < length (slots s)" "\<not> worker_settled (slots s ! i)"
  shows "map_get (int i) (progress this (step this s (WorkerRejected i msg))) = Some (''FAILED: '' @ msg)"
  using assms by (simp add: callback_defs progress_def wf_def)

text \<open>
  Claim C3, as the code has it: once the race of a slot has settled, no later callback,
  of this slot or of another, replaces the value the race has settled with, which is the
  outcome that reaches the aggregation. The progress map has no such guard: the timer of
  a slot whose worker has won still writes \<^verbatim>\<open>FAILED: Timeout\<close> over its status, and the
  worker of a slot that has timed out still writes \<^verbatim>\<open>COMPLETED\<close> (and its response into
  \<^verbatim>\<open>agent_results\<close>) or \<^verbatim>\<open>FAILED: ...\<close> when it settles.
\<close>

theorem first_settlement_keeps_outcome:
  assumes "wf this s" and "i < length (slots s)" and "race_value (slots s ! i) = Some r"
  shows "race_value (slots (foldl (step this) s es) ! i) = Some r
       \<and> (\<not> timer_fired (slots s ! i) \<longrightarrow>
            map_get (int i) (progress this (step this s (TimerFired i))) = Some ''FAILED: Timeout'')
       \<and> (\<not> worker_settled (slots s ! i) \<longrightarrow>
            map_get (int i) (progress this (step this s (WorkerResolved i resp elapsed)))
              = Some ''COMPLETED''
            \<and> map_get (int i) (store (step this s (WorkerResolved i resp elapsed)) ! agent_results this)
              = Some resp
            \<and> map_get (int i) (progress this (step this s (WorkerRejected i msg)))
              = Some (''FAILED: '' @ msg))"
  using assms race_value_foldl_settled [of s i r this es]
    first_settlement_progress_timer [of this s i]
    first_settlement_progress_resolved [of this s i resp elapsed]
    first_settlement_progress_rejected [of this s i msg]
  by blast

theorem first_settlement_keeps_outcome_witness:
  "race_value (slots (foldl (step (demo_orchestrator 1)) demo_completed [TimerFired 0]) ! 0)
     = Some \<lparr>agent_id = 0, status = Success, response = ''done'', execution_time = 6 / 5\<rparr>
   \<and> map_get 0 (progress (demo_orchestrator 1) (step (demo_orchestrator 1) demo_completed (TimerFired 0)))
     = Some ''FAILED: Timeout''"
proof -
  have w: "wf (demo_orchestrator 1) demo_completed"
    by code_simp
  have l: "0 < length (slots demo_completed)"
    by code_simp
  have r: "race_value (slots demo_completed ! 0)
             = Some \<lparr>agent_id = 0, status = Success, response = ''done'', execution_time = 6 / 5\<rparr>"
    by code_simp
  have t: "\<not> timer_fired (slots demo_completed ! 0)"
    by code_simp
  from first_settlement_keeps_outcome [OF w l r, of "[TimerFired 0]"] t
  show ?thesis by simp
qed

text \<open>
  Claim C3 as stated fails: a slot whose worker has won the race is \<^verbatim>\<open>COMPLETED\<close>, and
  \<^verbatim>\<open>FAILED: Timeout\<close> once its timer has fired; a slot that has timed out is
  \<^verbatim>\<open>FAILED: Timeout\<close>, and \<^verbatim>\<open>COMPLETED\<close> once its worker has resolved.
\<close>

theorem late_callbacks_overwrite_progress:
  "race_value (slots demo_completed ! 0)
     = Some \<lparr>agent_id = 0, status = Success, response = ''done'', execution_time = 6 / 5\<rparr>
   \<and> map_get 0 (progress (demo_orchestrator 1) demo_completed) = Some ''COMPLETED''
   \<and> map_get 0 (progress (demo_orchestrator 1)
        (step (demo_orchestrator 1) demo_completed (TimerFired 0))) = Some ''FAILED: Timeout''
   \<and> race_value (slots demo_timed_out ! 0)
     = Some \<lparr>agent_id = 0, status = Timeout, response = ''Agent 1 timed out after 300s'',
             execution_time = 300\<rparr>
   \<and> map_get 0 (progress (demo_orchestrator 1) demo_timed_out) = Some ''FAILED: Timeout''
   \<and> map_get 0 (progress (demo_orchestrator 1)
        (step (demo_orchestrator 1) demo_timed_out (WorkerResolved 0 ''late'' 400000)))
       = Some ''COMPLETED''"
  by code_simp

subsection \<open>Timeouts\<close>

lemma fst_decompose_task_state:
  "fst (decompose_task JSON_parse this reply userInput n s)
     = fst (decompose_task JSON_parse this reply userInput n s')"
  by (simp add: decompose_task_def Let_def split: promise.splits option.splits json.splits)

lemma aggregate_results_pending_iff:
  "fst (aggregate_results this reply rs s) = Pending
     \<longleftrightarrow> reply = Pending \<and> 2 \<le> length (filter (\<lambda>r. status r = Success) rs)"
proof -
  have "2 \<le> length xs \<longleftrightarrow> xs \<noteq> [] \<and> length xs \<noteq> Suc 0" for xs :: "AgentResult list"
    by (cases xs) (auto simp add: numeral_2_eq_2 Suc_le_eq)
  then show ?thesis
    by (cases reply) (simp_all add: aggregate_results_def aggregate_consensus_def Let_def)
qed

lemma worker_settles:
  assumes "i < length (slots s)" "race_value (slots s ! i) = None" "\<not> worker_settled (slots s ! i)"
  shows "race_value (slots (step this s (WorkerResolved i resp elapsed)) ! i)
           = Some \<lparr>agent_id = int i, status = Success, response = resp,
                   execution_time = of_int elapsed / 1000\<rparr>"
  using assms by (simp add: callback_defs race_settle_def)

lemma first_resolved_wins:
  assumes "i < length (slots s)" "race_value (slots s ! i) = None" "\<not> worker_settled (slots s ! i)"
    and "find (\<lambda>e. slot_of e = i) (pre @ late) = Some (WorkerResolved i resp elapsed)"
  shows "race_value (slots (foldl (step this) s pre) ! i) = None
       \<or> race_value (slots (foldl (step this) s pre) ! i)
           = Some \<lparr>agent_id = int i, status = Success, response = resp,
                   execution_time = of_int elapsed / 1000\<rparr>"
  using assms
proof (induction pre arbitrary: s)
  case Nil
  then show ?case by simp
next
  case (Cons e pre)
  show ?case
  proof (cases "slot_of e = i")
    case True
    with Cons.prems(4) have e: "e = WorkerResolved i resp elapsed" by simp
    from worker_settles [OF Cons.prems(1-3), of this resp elapsed] e
    show ?thesis by (simp add: race_value_foldl_settled)
  next
    case False
    then have same: "slots (step this s e) ! i = slots s ! i" by (rule slots_step_other)
    from False Cons.prems(4)
    have "find (\<lambda>e. slot_of e = i) (pre @ late) = Some (WorkerResolved i resp elapsed)"
      by simp
    with Cons.IH [of "step this s e"] Cons.prems(1-3) same show ?thesis by simp
  qed
qed

lemma dispatch_resolved:
  assumes d: "dispatch this subtasks schedule s = (Some rs, s1, late)"
    and i: "i < length subtasks"
    and first: "find (\<lambda>e. slot_of e = i) schedule = Some (WorkerResolved i resp elapsed)"
  shows "rs ! i = \<lparr>agent_id = int i, status = Success, response = resp,
                    execution_time = of_int elapsed / 1000\<rparr>"
proof -
  let ?s0 = "launch_from this 0 subtasks (s\<lparr>slots := []\<rparr>)"
  from dispatch_result [OF d] i obtain pre where
    val: "race_value (slots s1 ! i) = Some (rs ! i)"
    and pre: "schedule = pre @ late" "s1 = foldl (step this) ?s0 pre"
    by auto
  have "i < length (slots ?s0)" "race_value (slots ?s0 ! i) = None"
    "\<not> worker_settled (slots ?s0 ! i)"
    using i by (simp_all add: slots_launch_from)
  from first_resolved_wins [OF this, of pre late resp elapsed this] first pre val
  show ?thesis by simp
qed

lemma orchestrate_dispatch_fulfilled:
  assumes "fst (decompose_task JSON_parse this gen_reply userInput (num_agents this) s)
             = Fulfilled subtasks"
  shows "\<exists>s3. orchestrate_dispatch JSON_parse this gen_reply schedule userInput s
           = (case dispatch this subtasks schedule s3 of
                (None, s4, late) \<Rightarrow> (Pending, s4, late)
              | (Some agentResults, s4, late) \<Rightarrow> (Fulfilled agentResults, s4, late))"
proof -
  let ?s0 = "s\<lparr>store := (store s)[agent_progress this := [], agent_results this := []]\<rparr>"
  let ?s1 = "update_agent_progress this (- 1) ''INITIALIZING...'' None ?s0"
  obtain d s2 where
    d: "decompose_task JSON_parse this gen_reply userInput (num_agents this) ?s1 = (d, s2)"
    by force
  from assms fst_decompose_task_state [of JSON_parse this gen_reply userInput "num_agents this" ?s1 s] d
  have "decompose_task JSON_parse this gen_reply userInput (num_agents this) ?s1
              = (Fulfilled subtasks, s2)"
    by simp
  then have "orchestrate_dispatch JSON_parse this gen_reply schedule userInput s
           = (case dispatch this subtasks schedule
                     (fold (\<lambda>i. progress_set this (int i) ''QUEUED'') [0..<nat (num_agents this)] s2) of
                (None, s4, late) \<Rightarrow> (Pending, s4, late)
              | (Some agentResults, s4, late) \<Rightarrow> (Fulfilled agentResults, s4, late))"
    by (simp add: orchestrate_dispatch_def Let_def)
  then show ?thesis by blast
qed

lemma orchestrate_pending_iff:
  assumes "fst (orchestrate_dispatch JSON_parse this gen_reply schedule userInput s) = Fulfilled rs"
  shows "fst (orchestrate JSON_parse this gen_reply schedule synth_reply userInput s) = Pending
           \<longleftrightarrow> synth_reply = Pending \<and> 2 \<le> length (filter (\<lambda>r. status r = Success) rs)"
proof -
  obtain s4 late where
    "orchestrate_dispatch JSON_parse this gen_reply schedule userInput s = (Fulfilled rs, s4, late)"
    using assms by (cases "orchestrate_dispatch JSON_parse this gen_reply schedule userInput s") auto
  then have "fst (orchestrate JSON_parse this gen_reply schedule synth_reply userInput s)
               = fst (aggregate_results this synth_reply rs
                        (update_agent_progress this (- 1) ''AGGREGATING...'' None s4))"
    by (simp add: orchestrate_def Let_def split: prod.splits)
  then show ?thesis
    by (simp add: aggregate_results_pending_iff)
qed

text \<open>
  Claim C4, as the code has it: let \<open>subtasks\<close> be what the decomposition returns (it does
  not depend on the state), and let the timer of slot \<open>i\<close> be the first callback of that
  slot to run. Then the outcome of slot \<open>i\<close> in the sequence handed to
  \<^verbatim>\<open>aggregate_results\<close> has the status \<^verbatim>\<open>timeout\<close>, the configured timeout as its
  \<^verbatim>\<open>execution_time\<close>, and the response \<^verbatim>\<open>Agent i+1 timed out after <timeout>s\<close>, which is
  made of the slot number and the configuration alone. The dispatch does not hang on
  the slot: every timer fires, so \<^verbatim>\<open>Promise.all\<close> resolves, with one outcome for each
  subtask. The run itself returns in all cases but one: two or more slots have
  succeeded and the synthesis call, which is awaited without a timer, never settles.
\<close>

theorem timeout_outcome:
  assumes dec: "fst (decompose_task JSON_parse this gen_reply userInput (num_agents this) s)
                  = Fulfilled subtasks"
    and i: "i < length subtasks"
    and first: "find (\<lambda>e. slot_of e = i) schedule = Some (TimerFired i)"
    and timers: "\<forall>j<length subtasks. TimerFired j \<in> set schedule"
  shows "\<exists>rs. fst (orchestrate_dispatch JSON_parse this gen_reply schedule userInput s) = Fulfilled rs
            \<and> length rs = length subtasks
            \<and> rs ! i = \<lparr>agent_id = int i, status = Timeout,
                   response = ''Agent '' @ string_of_int (int i + 1) @ '' timed out after ''
                                @ string_of_int (task_timeout this) @ ''s'',
                   execution_time = of_int (task_timeout this)\<rparr>
            \<and> (fst (orchestrate JSON_parse this gen_reply schedule synth_reply userInput s) = Pending
                 \<longleftrightarrow> synth_reply = Pending
                     \<and> 2 \<le> length (filter (\<lambda>r. status r = Success) rs))"
proof -
  from orchestrate_dispatch_fulfilled [OF dec, of schedule] obtain s3 where
    od: "orchestrate_dispatch JSON_parse this gen_reply schedule userInput s
           = (case dispatch this subtasks schedule s3 of
                (None, s4, late) \<Rightarrow> (Pending, s4, late)
              | (Some agentResults, s4, late) \<Rightarrow> (Fulfilled agentResults, s4, late))"
    by blast
  from dispatch_timeout [OF i first timers, of this s3] obtain rs s4 late where
    disp: "dispatch this subtasks schedule s3 = (Some rs, s4, late)"
    and len: "length rs = length subtasks"
    and val: "rs ! i = \<lparr>agent_id = int i, status = Timeout,
                   response = ''Agent '' @ string_of_int (int i + 1) @ '' timed out after ''
                                @ string_of_int (task_timeout this) @ ''s'',
                   execution_time = of_int (task_timeout this)\<rparr>"
    by blast
  from od disp have f: "fst (orchestrate_dispatch JSON_parse this gen_reply schedule userInput s)
                          = Fulfilled rs"
    by simp
  from f len val orchestrate_pending_iff [OF f, of synth_reply] show ?thesis by blast
qed

theorem timeout_outcome_witness:
  "(\<exists>rs. fst (orchestrate_dispatch (\<lambda>t. None) (demo_orchestrator 3) (Rejected ''down'')
             [TimerFired 0, WorkerResolved 1 ''a'' 900, WorkerResolved 2 ''b'' 950, TimerFired 1,
              TimerFired 2]
             ''cats'' demo_state) = Fulfilled rs
        \<and> rs ! 0 = \<lparr>agent_id = 0, status = Timeout, response = ''Agent 1 timed out after 300s'',
                     execution_time = 300\<rparr>)
   \<and> fst (orchestrate (\<lambda>t. None) (demo_orchestrator 3) (Rejected ''down'')
             [TimerFired 0, WorkerResolved 1 ''a'' 900, WorkerResolved 2 ''b'' 950, TimerFired 1,
              TimerFired 2]
             (Rejected ''busy'') ''cats'' demo_state) \<noteq> Pending"
proof -
  have dec: "fst (decompose_task (\<lambda>t. None) (demo_orchestrator 3) (Rejected ''down'') ''cats''
                    (num_agents (demo_orchestrator 3)) demo_state)
               = Fulfilled [JString ''Research comprehensive information about: cats'',
                            JString ''Analyze and provide insights about: cats'',
                            JString ''Find alternative perspectives on: cats'']"
    by code_simp
  have i: "0 < length [JString ''Research comprehensive information about: cats'',
                       JString ''Analyze and provide insights about: cats'',
                       JString ''Find alternative perspectives on: cats'']"
    by simp
  have first: "find (\<lambda>e. slot_of e = 0)
                 [TimerFired 0, WorkerResolved 1 ''a'' 900, WorkerResolved 2 ''b'' 950,
                  TimerFired 1, TimerFired 2] = Some (TimerFired 0)"
    by simp
  have timers: "\<forall>j<length [JString ''Research comprehensive information about: cats'',
                             JString ''Analyze and provide insights about: cats'',
                             JString ''Find alternative perspectives on: cats''].
                  TimerFired j \<in> set [TimerFired 0, WorkerResolved 1 ''a'' 900,
                                      WorkerResolved 2 ''b'' 950, TimerFired 1, TimerFired 2]"
    by (auto simp add: less_Suc_eq)
  have n: "string_of_int 300 = ''300''" "task_timeout (demo_orchestrator 3) = 300"
    by code_simp+
  from timeout_outcome [OF dec i first timers, of "Rejected ''busy''"]
  show ?thesis by (auto simp add: n string_of_int_1)
qed

text \<open>
  Claim C4 as stated fails where it says that the run still completes: with three
  agents, slot 0 timed out and the slots 1 and 2 successful, a synthesis call that never
  settles leaves \<^verbatim>\<open>orchestrate\<close> waiting.
\<close>

theorem timed_out_run_waits_for_synthesis:
  "fst (orchestrate_dispatch (\<lambda>t. None) (demo_orchestrator 3) (Rejected ''down'')
          [TimerFired 0, WorkerResolved 1 ''a'' 900, WorkerResolved 2 ''b'' 950, TimerFired 1,
           TimerFired 2]
          ''cats'' demo_state)
     = Fulfilled
         [\<lparr>agent_id = 0, status = Timeout, response = ''Agent 1 timed out after 300s'',
            execution_time = 300\<rparr>,
          \<lparr>agent_id = 1, status = Success, response = ''a'', execution_time = 9 / 10\<rparr>,
          \<lparr>agent_id = 2, status = Success, response = ''b'', execution_time = 19 / 20\<rparr>]
   \<and> fst (orchestrate (\<lambda>t. None) (demo_orchestrator 3) (Rejected ''down'')
          [TimerFired 0, WorkerResolved 1 ''a'' 900, WorkerResolved 2 ''b'' 950, TimerFired 1,
           TimerFired 2]
          Pending ''cats'' demo_state)
     = Pending"
proof -
  let ?orch = "demo_orchestrator 3"
  let ?schedule = "[TimerFired 0, WorkerResolved 1 ''a'' 900, WorkerResolved 2 ''b'' 950,
                    TimerFired 1, TimerFired 2]"
  let ?subtasks = "[JString ''Research comprehensive information about: cats'',
                    JString ''Analyze and provide insights about: cats'',
                    JString ''Find alternative perspectives on: cats'']"
  have dec: "fst (decompose_task (\<lambda>t. None) ?orch (Rejected ''down'') ''cats''
                    (num_agents ?orch) demo_state) = Fulfilled ?subtasks"
    by code_simp
  have n: "string_of_int 300 = ''300''" "task_timeout ?orch = 300"
    by code_simp+
  from orchestrate_dispatch_fulfilled [OF dec, of ?schedule] obtain s3 where
    od: "orchestrate_dispatch (\<lambda>t. None) ?orch (Rejected ''down'') ?schedule ''cats'' demo_state
           = (case dispatch ?orch ?subtasks ?schedule s3 of
                (None, s4, late) \<Rightarrow> (Pending, s4, late)
              | (Some agentResults, s4, late) \<Rightarrow> (Fulfilled agentResults, s4, late))"
    by blast
  have timers: "\<forall>j<length ?subtasks. TimerFired j \<in> set ?schedule"
    by (auto simp add: less_Suc_eq)
  have first0: "find (\<lambda>e. slot_of e = 0) ?schedule = Some (TimerFired 0)"
    by simp
  have i0: "0 < length ?subtasks"
    by simp
  from dispatch_timeout [OF i0 first0 timers, of ?orch s3] obtain rs s4 late where
    disp: "dispatch ?orch ?subtasks ?schedule s3 = (Some rs, s4, late)"
    and len: "length rs = 3"
    and r0: "rs ! 0 = \<lparr>agent_id = 0, status = Timeout,
                        response = ''Agent 1 timed out after 300s'', execution_time = 300\<rparr>"
    by (auto simp add: n string_of_int_1)
  have r1: "rs ! 1 = \<lparr>agent_id = 1, status = Success, response = ''a'', execution_time = 9 / 10\<rparr>"
    using dispatch_resolved [OF disp, of 1 "''a''" 900] by simp
  have r2: "rs ! 2 = \<lparr>agent_id = 2, status = Success, response = ''b'', execution_time = 19 / 20\<rparr>"
    using dispatch_resolved [OF disp, of 2 "''b''" 950] by simp
  from len have "rs = [rs ! 0, rs ! 1, rs ! 2]"
    by (auto simp add: list_eq_iff_nth_eq numeral_3_eq_3 numeral_2_eq_2 less_Suc_eq)
  with r0 r1 r2 have rs: "rs = [\<lparr>agent_id = 0, status = Timeout,
                        response = ''Agent 1 timed out after 300s'', execution_time = 300\<rparr>,
       \<lparr>agent_id = 1, status = Success, response = ''a'', execution_time = 9 / 10\<rparr>,
       \<lparr>agent_id = 2, status = Success, response = ''b'', execution_time = 19 / 20\<rparr>]"
    by simp
  from od disp have f: "fst (orchestrate_dispatch (\<lambda>t. None) ?orch (Rejected ''down'') ?schedule
                               ''cats'' demo_state) = Fulfilled rs"
    by simp
  from orchestrate_pending_iff [OF f, of Pending] rs
  have "fst (orchestrate (\<lambda>t. None) ?orch (Rejected ''down'') ?schedule Pending ''cats''
               demo_state) = Pending"
    by simp
  with f rs show ?thesis by simp
qed

subsection \<open>More agents than fallback questions\<close>

lemma decompose_task_rejected:
  "fst (decompose_task JSON_parse this (Rejected msg) userInput n s)
     = Fulfilled (slice0 n (fallbackQuestions userInput))"
  by (simp add: decompose_task_def Let_def)

text \<open>
  Claim C2 says that the sequence handed to \<^verbatim>\<open>aggregate_results\<close> has one outcome for every
  slot in \<open>[0, N)\<close>. With \<open>N = 5\<close> and a decomposition worker that fails, the fallback gives
  four subtasks: the slots 0 to 3 are run, slot 4 is queued and never launched, and the
  sequence holds the outcomes of the slots 0 to 3 only (sorted, here after the timers
  have fired in the order 4, 1, 0, 3, 2).
\<close>

theorem orchestrate_five_agents_four_outcomes:
  "\<exists>rs. fst (orchestrate_dispatch JSON_parse (this\<lparr>num_agents := 5\<rparr>) (Rejected msg)
             [TimerFired 4, TimerFired 1, TimerFired 0, TimerFired 3, TimerFired 2] userInput s)
          = Fulfilled rs
        \<and> map agent_id rs = [0, 1, 2, 3]"
proof -
  let ?orch = "this\<lparr>num_agents := 5\<rparr>"
  let ?schedule = "[TimerFired 4, TimerFired 1, TimerFired 0, TimerFired 3, TimerFired 2]"
  let ?subtasks = "slice0 5 (fallbackQuestions userInput)"
  let ?s0 = "s\<lparr>store := (store s)[agent_progress ?orch := [], agent_results ?orch := []]\<rparr>"
  let ?s1 = "update_agent_progress ?orch (- 1) ''INITIALIZING...'' None ?s0"
  have four: "length ?subtasks = 4"
    by (simp add: slice0_def fallbackQuestions_def)
  obtain d s2 where
    d: "decompose_task JSON_parse ?orch (Rejected msg) userInput (num_agents ?orch) ?s1 = (d, s2)"
    by force
  with decompose_task_rejected [of JSON_parse ?orch msg userInput 5 ?s1]
  have d': "decompose_task JSON_parse ?orch (Rejected msg) userInput (num_agents ?orch) ?s1
              = (Fulfilled ?subtasks, s2)"
    by simp
  let ?s3 = "fold (\<lambda>i. progress_set ?orch (int i) ''QUEUED'') [0..<nat (num_agents ?orch)] s2"
  have "\<forall>j<length ?subtasks. TimerFired j \<in> set ?schedule"
    unfolding four by (simp add: numeral_eq_Suc All_less_Suc)
  from dispatch_completes [OF this, of ?orch ?s3] obtain rs s4 late where
    disp: "dispatch ?orch ?subtasks ?schedule ?s3 = (Some rs, s4, late)"
    by (cases "dispatch ?orch ?subtasks ?schedule ?s3") auto
  from dispatch_result [OF disp] four
  have len: "length rs = 4" and ids: "\<forall>j<4. agent_id (rs ! j) = int j"
    by simp_all
  have "map agent_id rs = map int [0..<4]"
    by (rule nth_equalityI) (use len ids in simp_all)
  also have "\<dots> = [0, 1, 2, 3]"
    by (simp add: upt_rec)
  finally have "map agent_id rs = [0, 1, 2, 3]" .
  moreover from d' disp
  have "fst (orchestrate_dispatch JSON_parse ?orch (Rejected msg) ?schedule userInput s) = Fulfilled rs"
    by (simp add: orchestrate_dispatch_def Let_def)
  ultimately show ?thesis by (intro exI [of _ rs] conjI)
qed

end
